theory Spec2Isabelle
  imports Main "HOL-Library.AList" "HOL-Library.Multiset"
begin

section \<open>Notebook dispatcher: data model\<close>

text \<open>
  Payload types declared in files outside the two sources (\<open>data/data\<close>,
  \<open>data/result\<close>, \<open>data/content_edit\<close>). The dispatcher and the backup store
  only pass them on, so each is an uninterpreted token.
\<close>

datatype CellMetadata = CellMetadata string
datatype CellComment = CellComment string
datatype PosRange = PosRange int int
datatype Output = Output string
datatype Result = Result string
datatype ContentEdit = ContentEdit string
datatype NotebookConfig = NotebookConfig string
datatype CompletionCandidate = CompletionCandidate string

text \<open>
  \<open>new NotebookCell(id, language, content, results, metadata, comments)\<close>. JavaScript
  numbers are modelled as \<open>int\<close> (cell ids, versions, offsets and timestamps are
  integers far below \<open>2^53\<close>).
\<close>

record NotebookCell =
  cell_id :: int
  language :: string
  content :: string
  results :: "Result list"
  metadata :: CellMetadata
  comments :: "(string \<times> CellComment) list"

text \<open>
  A cell as held in \<open>NotebookState.cells\<close>: the cell's data and the optional transient
  fields the dispatcher writes (\<open>queued\<close>, \<open>error\<close>, \<open>selected\<close>,
  \<open>currentSelection\<close>, \<open>pendingEdits\<close>); \<open>None\<close> is JavaScript's \<open>undefined\<close>.
\<close>

record CellState = NotebookCell +
  queued :: "bool option"
  error :: "bool option"
  selected :: "bool option"
  currentSelection :: "PosRange option"
  pendingEdits :: "ContentEdit list option"

datatype StartKernelLevel = NoRestart | Kill

text \<open>The protocol messages of \<open>data/messages\<close> that the dispatcher constructs.\<close>

datatype Message =
    messages_StartKernel StartKernelLevel
  | messages_CreateComment int int int CellComment
  | messages_UpdateComment int int int string PosRange string
  | messages_DeleteComment int int int string
  | messages_CurrentSelection int PosRange
  | messages_SetCellOutput int int int Output
  | messages_SetCellLanguage int int int string
  | messages_InsertCell int int NotebookCell int
  | messages_UpdateCell int int int "ContentEdit list" "CellMetadata option"
  | messages_DeleteCell int int int
  | messages_UpdateConfig int int NotebookConfig
  | messages_CompletionsAt int int "CompletionCandidate list"
  | messages_ParametersAt int int
  | messages_NotebookVersion string int
  | messages_RunCell "int list"
  | messages_CancelTasks string
  | messages_ClearOutput

text \<open>
  A callback (\<open>resolve\<close>, \<open>reject\<close>) is a function object of the caller; the model keeps
  its identity only, and calling it is an effect.
\<close>

datatype callback = Callback nat

record callbacks =
  resolve :: callback
  reject :: callback

text \<open>
  Modelled from the spec: \<open>EditBuffer\<close> (declared in \<open>state/notebook_state\<close>, absent
  from the sources) is "an ordered mapping from localVersion to message, append-only";
  \<open>push(version, edit)\<close> appends the entry and returns the buffer.
\<close>

type_synonym EditBuffer = "(int \<times> Message) list"

definition push :: "EditBuffer \<Rightarrow> int \<Rightarrow> Message \<Rightarrow> EditBuffer" where
  "push buf version edit = buf @ [(version, edit)]"

text \<open>
  \<open>NotebookState\<close>: the fields the dispatcher reads or writes. The record is
  extensible, so the spread \<open>{...state, f: v}\<close> is the record update that keeps every
  other field.
\<close>

record NotebookState =
  path :: string
  cells :: "CellState list"
  config :: "NotebookConfig option"
  globalVersion :: int
  localVersion :: int
  editBuffer :: EditBuffer
  activeCell :: "CellState option"
  activeCompletion :: "callbacks option"
  activeSignature :: "callbacks option"

datatype KernelCommandName = start | kill
datatype Relative = above | below

text \<open>The \<open>UIAction\<close> variants that \<open>NotebookMessageDispatcher.dispatch\<close> matches.\<close>

datatype UIAction =
    Reconnect bool
  | KernelCommand KernelCommandName
  | CreateComment int CellComment
  | UpdateComment int string PosRange string
  | DeleteComment int string
  | SetCurrentSelection int PosRange
  | SetCellOutput int Output
  | SetCellLanguage int string
  | CreateCell string string CellMetadata int
  | UpdateCell int "ContentEdit list" "string option" "CellMetadata option"
  | DeleteCell int
  | UpdateConfig NotebookConfig
  | RequestCompletions int int callback callback
  | RequestSignature int int callback callback
  | RequestNotebookVersion int
  | RequestCellRun "int list"
  | RequestCancelTasks
  | RequestClearOutput
  | SetSelectedCell "int option" "Relative option"
  | CurrentSelection int PosRange
  | ClearCellEdits int
  | DownloadNotebook

text \<open>
  What a dispatch does besides changing the notebook state, in the order it happens:
  \<open>socket.send(msg)\<close>, \<open>socket.reconnect(onlyIfClosed)\<close>, and the call of a stored
  \<open>reject\<close> callback.
\<close>

datatype Effect =
    Send Message
  | SocketReconnect bool
  | Invoke callback

section \<open>Notebook dispatcher: operations\<close>

text \<open>\<open>Array.prototype.findIndex\<close>: the first index whose element satisfies \<open>p\<close>, or \<open>-1\<close>.\<close>

fun findIndex :: "('a \<Rightarrow> bool) \<Rightarrow> 'a list \<Rightarrow> int" where
  "findIndex p [] = -1"
| "findIndex p (x # xs) =
     (if p x then 0 else (let i = findIndex p xs in if i = -1 then -1 else i + 1))"

text \<open>\<open>xs[i]\<close>: \<open>undefined\<close> outside \<open>0 .. length - 1\<close>.\<close>

definition at_index :: "'a list \<Rightarrow> int \<Rightarrow> 'a option" where
  "at_index xs i = (if 0 \<le> i \<and> i < int (length xs) then Some (xs ! nat i) else None)"

text \<open>\<open>state.cells.reduce((acc, cell) => acc > cell.id ? acc : cell.id, -1)\<close>\<close>

definition maxId :: "CellState list \<Rightarrow> int" where
  "maxId cs = foldl (\<lambda>acc cell. if acc > cell_id cell then acc else cell_id cell) (-1) cs"

text \<open>\<open>new NotebookCell(id, language, content, [], metadata)\<close>; \<open>comments\<close> takes its default, the empty mapping.\<close>

definition new_NotebookCell :: "int \<Rightarrow> string \<Rightarrow> string \<Rightarrow> CellMetadata \<Rightarrow> NotebookCell" where
  "new_NotebookCell i lang cont meta =
     \<lparr>cell_id = i, language = lang, content = cont, results = [], metadata = meta, comments = []\<rparr>"

text \<open>
  \<open>state.cells[anchorIdx - 1]\<close> and \<open>state.cells[anchorIdx + 1]\<close> with
  \<open>anchorIdx = state.cells.findIndex(cell => cell.id === id)\<close>: the neighbour of the
  anchor cell. A cell's id is a number, so no cell matches an \<open>undefined\<close> id.
\<close>

definition neighbour :: "CellState list \<Rightarrow> int option \<Rightarrow> Relative \<Rightarrow> CellState option" where
  "neighbour cs sel relative =
     (let anchorIdx = findIndex (\<lambda>cell. Some (cell_id cell) = sel) cs
      in case relative of
           above \<Rightarrow> at_index cs (anchorIdx - 1)
         | below \<Rightarrow> at_index cs (anchorIdx + 1))"

text \<open>
  The local variable \<open>id\<close> of the \<open>SetSelectedCell\<close> branch when the state is returned:
  the neighbour's \<open>?.id\<close> for a relative selection, then
  \<open>id ?? (selected === -1 ? 0 : selected)\<close>.
\<close>

definition selected_id :: "CellState list \<Rightarrow> int option \<Rightarrow> Relative option \<Rightarrow> int option" where
  "selected_id cs sel relative =
     (let id0 = (case relative of
                   Some r \<Rightarrow> map_option cell_id (neighbour cs sel r)
                 | None \<Rightarrow> sel)
      in case id0 of Some i \<Rightarrow> Some i | None \<Rightarrow> (if sel = Some (-1) then Some 0 else sel))"

text \<open>
  \<open>NotebookMessageDispatcher.dispatch\<close>, one equation per \<open>when\<close> branch, in the
  source's order. \<open>updateState(f)\<close> replaces the state by \<open>f(state)\<close> and \<open>getState()\<close>
  reads it. The first argument is the user's answer to \<open>confirm(...)\<close>, asked by the
  \<open>kill\<close> command only. The result is the new state and the effects in order.
\<close>

fun dispatch :: "bool \<Rightarrow> UIAction \<Rightarrow> 'a NotebookState_scheme \<Rightarrow> 'a NotebookState_scheme \<times> Effect list" where
  "dispatch confirmed (Reconnect onlyIfClosed) state = (state, [SocketReconnect onlyIfClosed])"
| "dispatch confirmed (KernelCommand command) state =
     (case command of
        start \<Rightarrow> (state, [Send (messages_StartKernel NoRestart)])
      | kill \<Rightarrow> (if confirmed then (state, [Send (messages_StartKernel Kill)]) else (state, [])))"
| "dispatch confirmed (CreateComment cellId comment) state =
     (state, [Send (messages_CreateComment (globalVersion state) (localVersion state) cellId comment)])"
| "dispatch confirmed (UpdateComment cellId commentId rng cont) state =
     (state, [Send (messages_UpdateComment (globalVersion state) (localVersion state) cellId commentId rng cont)])"
| "dispatch confirmed (DeleteComment cellId commentId) state =
     (state, [Send (messages_DeleteComment (globalVersion state) (localVersion state) cellId commentId)])"
| "dispatch confirmed (SetCurrentSelection cellId rng) state =
     (state, [Send (messages_CurrentSelection cellId rng)])"
| "dispatch confirmed (SetCellOutput cellId output) state =
     (state, [Send (messages_SetCellOutput (globalVersion state) (localVersion state) cellId output)])"
| "dispatch confirmed (SetCellLanguage cellId lang) state =
     (state\<lparr>cells := map (\<lambda>cell. if cell_id cell = cellId then cell\<lparr>language := lang\<rparr> else cell) (cells state)\<rparr>,
      [Send (messages_SetCellLanguage (globalVersion state) (localVersion state) cellId lang)])"
| "dispatch confirmed (CreateCell lang cont meta prev) state =
     (let localVersion' = localVersion state + 1;
          cell = new_NotebookCell (maxId (cells state) + 1) lang cont meta;
          update = messages_InsertCell (globalVersion state) localVersion' cell prev
      in (state\<lparr>editBuffer := push (editBuffer state) (localVersion state) update\<rparr>, [Send update]))"
| "dispatch confirmed (UpdateCell cellId edits newContent meta) state =
     (let localVersion' = localVersion state + 1;
          update = messages_UpdateCell (globalVersion state) localVersion' cellId edits meta
      in (state\<lparr>editBuffer := push (editBuffer state) (localVersion state) update,
                cells := map (\<lambda>cell. if cell_id cell = cellId
                                       then cell\<lparr>content := (case newContent of Some c \<Rightarrow> c | None \<Rightarrow> content cell),
                                                 metadata := (case meta of Some m \<Rightarrow> m | None \<Rightarrow> metadata cell)\<rparr>
                                       else cell) (cells state)\<rparr>,
          [Send update]))"
| "dispatch confirmed (DeleteCell cellId) state =
     (let state1 = state\<lparr>localVersion := localVersion state + 1\<rparr>;
          update = messages_DeleteCell (globalVersion state1) (localVersion state1) cellId
      in (state1\<lparr>editBuffer := push (editBuffer state1) (localVersion state1) update\<rparr>, [Send update]))"
| "dispatch confirmed (UpdateConfig conf) state =
     (let state1 = state\<lparr>localVersion := localVersion state + 1\<rparr>;
          update = messages_UpdateConfig (globalVersion state1) (localVersion state1) conf
      in (state1\<lparr>editBuffer := push (editBuffer state1) (localVersion state1) update\<rparr>, [Send update]))"
| "dispatch confirmed (RequestCompletions cellId offset res rej) state =
     (state\<lparr>activeCompletion := Some \<lparr>resolve = res, reject = rej\<rparr>\<rparr>,
      Send (messages_CompletionsAt cellId offset [])
        # (case activeCompletion state of Some prior \<Rightarrow> [Invoke (reject prior)] | None \<Rightarrow> []))"
| "dispatch confirmed (RequestSignature cellId offset res rej) state =
     (state\<lparr>activeSignature := Some \<lparr>resolve = res, reject = rej\<rparr>\<rparr>,
      Send (messages_ParametersAt cellId offset)
        # (case activeSignature state of Some prior \<Rightarrow> [Invoke (reject prior)] | None \<Rightarrow> []))"
| "dispatch confirmed (RequestNotebookVersion version) state =
     (state, [Send (messages_NotebookVersion (path state) version)])"
| "dispatch confirmed (RequestCellRun cellIds0) state =
     (let cellIds = (if length cellIds0 = 0 then map cell_id (cells state) else cellIds0)
      in (state\<lparr>cells := map (\<lambda>cell. if cell_id cell \<in> set cellIds
                                      then cell\<lparr>queued := Some True, results := [], error := Some False\<rparr>
                                      else cell) (cells state)\<rparr>,
          [Send (messages_RunCell cellIds)]))"
| "dispatch confirmed RequestCancelTasks state = (state, [Send (messages_CancelTasks (path state))])"
| "dispatch confirmed RequestClearOutput state = (state, [Send messages_ClearOutput])"
| "dispatch confirmed (SetSelectedCell sel relative) state =
     (let id' = selected_id (cells state) sel relative
      in (state\<lparr>activeCell := find (\<lambda>cell. Some (cell_id cell) = id') (cells state),
                cells := map (\<lambda>cell. cell\<lparr>selected := Some (Some (cell_id cell) = id')\<rparr>) (cells state)\<rparr>,
          []))"
| "dispatch confirmed (CurrentSelection cellId rng) state =
     (state\<lparr>cells := map (\<lambda>cell. cell\<lparr>currentSelection := (if cell_id cell = cellId then Some rng else None)\<rparr>) (cells state)\<rparr>,
      [Send (messages_CurrentSelection cellId rng)])"
| "dispatch confirmed (ClearCellEdits i) state =
     (state\<lparr>cells := map (\<lambda>cell. if cell_id cell = i then cell\<lparr>pendingEdits := Some []\<rparr> else cell) (cells state)\<rparr>, [])"
| "dispatch confirmed DownloadNotebook state = (state, [])"

text \<open>A sequence of dispatches, one after the other; the effects are concatenated.\<close>

fun dispatch_all :: "bool \<Rightarrow> UIAction list \<Rightarrow> 'a NotebookState_scheme \<Rightarrow> 'a NotebookState_scheme \<times> Effect list" where
  "dispatch_all confirmed [] state = (state, [])"
| "dispatch_all confirmed (a # as) state =
     (let (state1, es1) = dispatch confirmed a state;
          (state2, es2) = dispatch_all confirmed as state1
      in (state2, es1 @ es2))"

section \<open>Backup store: data model\<close>

text \<open>
  \<open>Backup.equals\<close> compares arrays and objects with \<open>===\<close>, which is identity, not
  content. An array or object therefore carries the address it lives at beside its
  content, and a fresh one takes the next unused address.
\<close>

type_synonym addr = nat

datatype 'a ref = Ref (addr: addr) (deref: 'a)

definition strict_eq :: "'a ref \<Rightarrow> 'a ref \<Rightarrow> bool" where
  "strict_eq a b = (addr a = addr b)"

text \<open>\<open>===\<close> on an optional object: \<open>undefined === undefined\<close> holds.\<close>

fun strict_eq_opt :: "'a ref option \<Rightarrow> 'a ref option \<Rightarrow> bool" where
  "strict_eq_opt None None = True"
| "strict_eq_opt (Some a) (Some b) = strict_eq a b"
| "strict_eq_opt _ _ = False"

text \<open>
  \<open>class Backup\<close> and \<open>interface IBackup\<close> have the same fields; one record serves
  both. \<open>NotebookUpdate\<close> is the type of the update messages.
\<close>

record Backup =
  b_path :: string
  b_cells :: "NotebookCell list ref"
  b_config :: "NotebookConfig ref option"
  b_ts :: int
  b_updates :: "(int \<times> Message) list ref"

text \<open>
  \<open>class Backups\<close> and \<open>interface IBackups\<close>. The field \<open>backups\<close> is an object used
  as a mapping from day timestamp to that day's backups: an association list with one
  entry per key, a new key going to the end. The order of the keys is never observed
  (only their count, minimum and maximum are).
\<close>

record Backups =
  bs_path :: string
  backups :: "(int \<times> Backup list) list"

definition BACKUPS_PER_NOTEBOOK :: nat where
  "BACKUPS_PER_NOTEBOOK = 100"

definition BACKUPS_PER_DAY :: nat where
  "BACKUPS_PER_DAY = 10"

text \<open>
  The three \<open>throw new Error(...)\<close> sites: \<open>getBackups\<close>, \<open>ClientBackup.updateNb\<close> and
  \<open>Backups.addUpdate\<close>, each with the path of its message.
\<close>

datatype error =
    NoBackupFound string
  | NoCurrentBackup string
  | NoBackupsFound string

text \<open>
  The world outside a call: the \<open>idb-keyval\<close> store (a key-value store keyed by
  notebook path) and the next unused address. The clock is an argument of each
  operation: \<open>today\<close> is the value of \<open>todayTs()\<close> and \<open>now\<close> that of \<open>Date.now()\<close>.
  Storage failures of \<open>get\<close> and \<open>set\<close> are not modelled.
\<close>

record world =
  idb :: "(string \<times> Backups) list"
  next_addr :: addr

section \<open>Backup store: operations\<close>

text \<open>\<open>Math.min(...xs)\<close> and \<open>Math.max(...xs)\<close>; \<open>None\<close> is the infinity returned for no argument.\<close>

fun Math_min :: "int list \<Rightarrow> int option" where
  "Math_min [] = None"
| "Math_min (x # xs) = Some (fold min xs x)"

fun Math_max :: "int list \<Rightarrow> int option" where
  "Math_max [] = None"
| "Math_max (x # xs) = Some (fold max xs x)"

definition equals :: "Backup \<Rightarrow> Backup \<Rightarrow> bool" where
  "equals this backup =
     (b_path this = b_path backup
      \<and> strict_eq (b_cells this) (b_cells backup)
      \<and> strict_eq_opt (b_config this) (b_config backup)
      \<and> strict_eq (b_updates this) (b_updates backup))"

text \<open>\<open>Backup.addUpdate\<close>: \<open>this.updates.push({ts, upd})\<close> changes the array in place.\<close>

definition Backup_addUpdate :: "int \<Rightarrow> Message \<Rightarrow> Backup \<Rightarrow> Backup" where
  "Backup_addUpdate now upd this =
     this\<lparr>b_updates := Ref (addr (b_updates this)) (deref (b_updates this) @ [(now, upd)])\<rparr>"

text \<open>\<open>Backup.fromI\<close>: a new \<open>Backup\<close> that shares the arrays of the \<open>IBackup\<close>.\<close>

definition Backup_fromI :: "Backup \<Rightarrow> Backup" where
  "Backup_fromI iBackup =
     \<lparr>b_path = b_path iBackup, b_cells = b_cells iBackup, b_config = b_config iBackup,
      b_ts = b_ts iBackup, b_updates = b_updates iBackup\<rparr>"

text \<open>\<open>new Backups(path)\<close> with the default, empty \<open>backups\<close>.\<close>

definition new_Backups :: "string \<Rightarrow> Backups" where
  "new_Backups p = \<lparr>bs_path = p, backups = []\<rparr>"

text \<open>
  \<open>Backups.addBackup\<close>. \<open>Object.values(this.backups).length\<close> is the number of day
  buckets; \<open>shift()\<close> drops index 0.
\<close>

definition addBackup :: "int \<Rightarrow> Backup \<Rightarrow> Backups \<Rightarrow> Backups" where
  "addBackup today backup this =
     (let kept = (if length (backups this) > BACKUPS_PER_NOTEBOOK
                  then (case Math_min (map fst (backups this)) of
                          Some oldestDay \<Rightarrow> AList.delete oldestDay (backups this)
                        | None \<Rightarrow> backups this)
                  else backups this)
      in this\<lparr>backups :=
           (case map_of kept today of
              None \<Rightarrow> AList.update today [backup] kept
            | Some todayBackups \<Rightarrow>
                if length todayBackups < BACKUPS_PER_DAY
                then AList.update today (todayBackups @ [backup]) kept
                else AList.update today (tl todayBackups @ [backup]) kept)\<rparr>)"

text \<open>
  The bucket \<open>latestBackup\<close> reads: today's when there is one (an empty array is
  truthy too), the one of the numerically largest day otherwise.
\<close>

definition latestBucket :: "int \<Rightarrow> Backups \<Rightarrow> (int \<times> Backup list) option" where
  "latestBucket today this =
     (case map_of (backups this) today of
        Some todayBackups \<Rightarrow> Some (today, todayBackups)
      | None \<Rightarrow>
          (case Math_max (map fst (backups this)) of
             None \<Rightarrow> None
           | Some newestDay \<Rightarrow>
               (case map_of (backups this) newestDay of
                  Some newestBackups \<Rightarrow> Some (newestDay, newestBackups)
                | None \<Rightarrow> None)))"

text \<open>\<open>Backups.latestBackup\<close>: the last element of that bucket, \<open>bucket[bucket.length - 1]\<close>.\<close>

definition latestBackup :: "int \<Rightarrow> Backups \<Rightarrow> Backup option" where
  "latestBackup today this =
     (case latestBucket today this of
        Some (day, bucket) \<Rightarrow> at_index bucket (int (length bucket) - 1)
      | None \<Rightarrow> None)"

text \<open>
  \<open>Backups.addUpdate\<close>: \<open>latest\<close> is the very object that sits last in its bucket, so
  pushing onto its \<open>updates\<close> is a change of the container at that place. No two
  backups of a container share an \<open>updates\<close> array: each is made by \<open>new Backup\<close> or by
  the store's deserialisation.
\<close>

definition Backups_addUpdate :: "int \<Rightarrow> int \<Rightarrow> Message \<Rightarrow> Backups \<Rightarrow> error + Backups" where
  "Backups_addUpdate today now upd this =
     (case latestBackup today this of
        Some latest \<Rightarrow>
          (case latestBucket today this of
             Some (day, bucket) \<Rightarrow>
               Inr (this\<lparr>backups := AList.update day (bucket[length bucket - 1 := Backup_addUpdate now upd latest])
                                         (backups this)\<rparr>)
           | None \<Rightarrow> Inr this)
      | None \<Rightarrow> Inl (NoBackupsFound (bs_path this)))"

text \<open>
  \<open>Backups.fromI\<close> rebuilds the mapping key by key (\<open>parseInt\<close> of a key written from an
  integer gives the integer back) with \<open>Backup.fromI\<close> on every element; \<open>toI\<close> is the
  plain object of the two fields.
\<close>

definition Backups_fromI :: "Backups \<Rightarrow> Backups" where
  "Backups_fromI iBackups =
     \<lparr>bs_path = bs_path iBackups,
      backups = map (\<lambda>(ts, iBackupList). (ts, map Backup_fromI iBackupList)) (backups iBackups)\<rparr>"

definition toI :: "Backups \<Rightarrow> Backups" where
  "toI this = \<lparr>bs_path = bs_path this, backups = backups this\<rparr>"

text \<open>
  The store returns a structured clone of what was stored: every array and object of
  the value read has a new identity. A backup takes three addresses (cells, config,
  updates).
\<close>

definition clone_Backup :: "addr \<Rightarrow> Backup \<Rightarrow> Backup" where
  "clone_Backup a b =
     b\<lparr>b_cells := Ref a (deref (b_cells b)),
       b_config := map_option (\<lambda>c. Ref (a + 1) (deref c)) (b_config b),
       b_updates := Ref (a + 2) (deref (b_updates b))\<rparr>"

fun clone_list :: "addr \<Rightarrow> Backup list \<Rightarrow> Backup list" where
  "clone_list a [] = []"
| "clone_list a (b # bs) = clone_Backup a b # clone_list (a + 3) bs"

fun clone_buckets :: "addr \<Rightarrow> (int \<times> Backup list) list \<Rightarrow> (int \<times> Backup list) list" where
  "clone_buckets a [] = []"
| "clone_buckets a ((day, bucket) # rest) =
     (day, clone_list a bucket) # clone_buckets (a + 3 * length bucket) rest"

definition backup_count :: "Backups \<Rightarrow> nat" where
  "backup_count this = sum_list (map (\<lambda>(day, bucket). length bucket) (backups this))"

text \<open>\<open>get\<close>, \<open>set\<close>, \<open>keys\<close> and \<open>clear\<close> of \<open>idb-keyval\<close>.\<close>

definition idb_get :: "string \<Rightarrow> world \<Rightarrow> Backups option \<times> world" where
  "idb_get key w =
     (case map_of (idb w) key of
        None \<Rightarrow> (None, w)
      | Some v \<Rightarrow>
          (Some (v\<lparr>backups := clone_buckets (next_addr w) (backups v)\<rparr>),
           w\<lparr>next_addr := next_addr w + 3 * backup_count v\<rparr>))"

definition idb_set :: "string \<Rightarrow> Backups \<Rightarrow> world \<Rightarrow> world" where
  "idb_set key v w = w\<lparr>idb := AList.update key v (idb w)\<rparr>"

definition idb_keys :: "world \<Rightarrow> string list" where
  "idb_keys w = map fst (idb w)"

definition idb_clear :: "world \<Rightarrow> world" where
  "idb_clear w = w\<lparr>idb := []\<rparr>"

text \<open>\<open>cell => new NotebookCell(cell.id, cell.language, cell.content, [], cell.metadata, cell.comments)\<close>\<close>

definition clearCell :: "NotebookCell \<Rightarrow> NotebookCell" where
  "clearCell cell =
     \<lparr>cell_id = cell_id cell, language = language cell, content = content cell,
      results = [], metadata = metadata cell, comments = comments cell\<rparr>"

text \<open>
  \<open>new Backup(path, cells, config)\<close>: \<open>ts\<close> defaults to \<open>Date.now()\<close> and \<open>updates\<close> to a
  new empty array, here at address \<open>a\<close>.
\<close>

definition new_Backup :: "string \<Rightarrow> NotebookCell list ref \<Rightarrow> NotebookConfig ref option \<Rightarrow> int \<Rightarrow> addr \<Rightarrow> Backup" where
  "new_Backup p cs conf now a =
     \<lparr>b_path = p, b_cells = cs, b_config = conf, b_ts = now, b_updates = Ref a []\<rparr>"

text \<open>
  \<open>ClientBackup.addNb\<close>. \<open>cells.map(...)\<close> makes a new array and \<open>new Backup\<close> a new
  \<open>updates\<close> array, before the store is read. A rejected promise is \<open>Inl\<close>.
\<close>

definition addNb ::
  "int \<Rightarrow> int \<Rightarrow> string \<Rightarrow> NotebookCell list \<Rightarrow> NotebookConfig ref option \<Rightarrow> world \<Rightarrow> (error + Backups) \<times> world" where
  "addNb today now p cs conf w =
     (let clearedCells = Ref (next_addr w) (map clearCell cs);
          backup = new_Backup p clearedCells conf now (next_addr w + 1);
          (backupsObj, w1) = idb_get p (w\<lparr>next_addr := next_addr w + 2\<rparr>);
          bs = (case backupsObj of Some i \<Rightarrow> Backups_fromI i | None \<Rightarrow> new_Backups p)
      in if (case latestBackup today bs of Some latest \<Rightarrow> equals latest backup | None \<Rightarrow> False)
         then (Inr bs, w1)
         else (let bs' = addBackup today backup bs in (Inr bs', idb_set p (toI bs') w1)))"

definition getBackups :: "string \<Rightarrow> world \<Rightarrow> (error + Backups) \<times> world" where
  "getBackups p w =
     (case idb_get p w of
        (Some iBackups, w1) \<Rightarrow> (Inr iBackups, w1)
      | (None, w1) \<Rightarrow> (Inl (NoBackupFound p), w1))"

text \<open>\<open>ClientBackup.allBackups\<close>: \<open>getBackups\<close> for every key, collected by key.\<close>

fun getBackups_each :: "string list \<Rightarrow> world \<Rightarrow> (error + (string \<times> Backups) list) \<times> world" where
  "getBackups_each [] w = (Inr [], w)"
| "getBackups_each (k # ks) w =
     (case getBackups k w of
        (Inl e, w1) \<Rightarrow> (Inl e, w1)
      | (Inr iBackup, w1) \<Rightarrow>
          (case getBackups_each ks w1 of
             (Inl e, w2) \<Rightarrow> (Inl e, w2)
           | (Inr rest, w2) \<Rightarrow> (Inr ((k, iBackup) # rest), w2)))"

definition allBackups :: "world \<Rightarrow> (error + (string \<times> Backups) list) \<times> world" where
  "allBackups w = getBackups_each (idb_keys w) w"

definition updateNb :: "int \<Rightarrow> int \<Rightarrow> string \<Rightarrow> Message \<Rightarrow> world \<Rightarrow> (error + Backups) \<times> world" where
  "updateNb today now p upd w =
     (case idb_get p w of
        (Some iBackups, w1) \<Rightarrow>
          (case Backups_addUpdate today now upd (Backups_fromI iBackups) of
             Inl e \<Rightarrow> (Inl e, w1)
           | Inr bs \<Rightarrow> (Inr bs, idb_set p (toI bs) w1))
      | (None, w1) \<Rightarrow> (Inl (NoCurrentBackup p), w1))"

definition clearBackups :: "world \<Rightarrow> (error + (string \<times> Backups) list) \<times> world" where
  "clearBackups w =
     (case allBackups w of
        (Inl e, w1) \<Rightarrow> (Inl e, w1)
      | (Inr bks, w1) \<Rightarrow> (Inr bks, idb_clear w1))"

section \<open>Scenarios and auxiliary notions\<close>

text \<open>The start of the end-to-end scenario: cells with ids 0 and 1, both versions 0, nothing buffered or pending.\<close>

definition scenario_cell :: "int \<Rightarrow> CellState" where
  "scenario_cell i =
     \<lparr>cell_id = i, language = ''scala'', content = '''', results = [], metadata = CellMetadata '''',
      comments = [], queued = None, error = None, selected = None, currentSelection = None,
      pendingEdits = None\<rparr>"

definition scenario_state :: NotebookState where
  "scenario_state =
     \<lparr>path = ''nb.ipynb'', cells = [scenario_cell 0, scenario_cell 1], config = None,
      globalVersion = 0, localVersion = 0, editBuffer = [], activeCell = None,
      activeCompletion = None, activeSignature = None\<rparr>"

text \<open>The actions whose branch writes an incremented \<open>localVersion\<close> into the state.\<close>

fun bumps_version :: "UIAction \<Rightarrow> bool" where
  "bumps_version (DeleteCell _) = True"
| "bumps_version (UpdateConfig _) = True"
| "bumps_version _ = False"

text \<open>
  The \<open>reject\<close> callbacks held in the two request slots of a state, those handed in by
  an action, and those called among a list of effects.
\<close>

definition pending_rejects :: "'a NotebookState_scheme \<Rightarrow> callback multiset" where
  "pending_rejects state =
     (case activeCompletion state of Some c \<Rightarrow> {#reject c#} | None \<Rightarrow> {#})
   + (case activeSignature state of Some c \<Rightarrow> {#reject c#} | None \<Rightarrow> {#})"

fun requested_reject :: "UIAction \<Rightarrow> callback multiset" where
  "requested_reject (RequestCompletions _ _ _ rej) = {#rej#}"
| "requested_reject (RequestSignature _ _ _ rej) = {#rej#}"
| "requested_reject _ = {#}"

fun invoked :: "Effect list \<Rightarrow> callback multiset" where
  "invoked [] = {#}"
| "invoked (Invoke cb # es) = add_mset cb (invoked es)"
| "invoked (_ # es) = invoked es"

text \<open>The actions whose branch only sends a message.\<close>

fun send_only :: "UIAction \<Rightarrow> bool" where
  "send_only (CreateComment _ _) = True"
| "send_only (UpdateComment _ _ _ _) = True"
| "send_only (DeleteComment _ _) = True"
| "send_only (SetCurrentSelection _ _) = True"
| "send_only (SetCellOutput _ _) = True"
| "send_only (RequestNotebookVersion _) = True"
| "send_only RequestCancelTasks = True"
| "send_only RequestClearOutput = True"
| "send_only _ = False"

text \<open>Sample backups and containers for the retention scenarios.\<close>

definition sample_backup :: "int \<Rightarrow> Backup" where
  "sample_backup t =
     \<lparr>b_path = ''nb'', b_cells = Ref 0 [], b_config = None, b_ts = t, b_updates = Ref 1 []\<rparr>"

definition full_container :: Backups where
  "full_container = \<lparr>bs_path = ''nb'', backups = map (\<lambda>d. (d, [sample_backup d])) [1..100]\<rparr>"

definition crowded_container :: Backups where
  "crowded_container =
     \<lparr>bs_path = ''nb'',
      backups = (1, map sample_backup [1..10]) # map (\<lambda>d. (d, [sample_backup d])) [2..101]\<rparr>"

definition empty_world :: world where
  "empty_world = \<lparr>idb = [], next_addr = 0\<rparr>"

text \<open>
  The worlds the store can be in: an empty store, and whatever the operations of
  \<open>ClientBackup\<close> make of a reachable one, at any clock and for any arguments.
\<close>

inductive reachable :: "world \<Rightarrow> bool" where
  reachable_empty: "reachable \<lparr>idb = [], next_addr = n\<rparr>"
| reachable_addNb: "reachable w \<Longrightarrow> reachable (snd (addNb today now p cs conf w))"
| reachable_updateNb: "reachable w \<Longrightarrow> reachable (snd (updateNb today now p upd w))"
| reachable_getBackups: "reachable w \<Longrightarrow> reachable (snd (getBackups p w))"
| reachable_allBackups: "reachable w \<Longrightarrow> reachable (snd (allBackups w))"
| reachable_clearBackups: "reachable w \<Longrightarrow> reachable (snd (clearBackups w))"

text \<open>The latest backup of the entry stored for a path, if there is one.\<close>

definition latest_stored :: "int \<Rightarrow> world \<Rightarrow> string \<Rightarrow> Backup option" where
  "latest_stored today w p =
     (case map_of (idb w) p of Some v \<Rightarrow> latestBackup today v | None \<Rightarrow> None)"

text \<open>No day bucket is empty; every stored entry has a bucket and none of them is empty.\<close>

definition filled :: "(int \<times> Backup list) list \<Rightarrow> bool" where
  "filled bks = ([] \<notin> snd ` set bks)"

definition store_ok :: "world \<Rightarrow> bool" where
  "store_ok w = (\<forall>(p, v) \<in> set (idb w). backups v \<noteq> [] \<and> filled (backups v))"

text \<open>A container seen through a function of its backups, day by day.\<close>

definition bucket_view :: "(Backup \<Rightarrow> 'a) \<Rightarrow> (int \<times> Backup list) list \<Rightarrow> (int \<times> 'a list) list" where
  "bucket_view f bks = map (\<lambda>(d, l). (d, map f l)) bks"

section \<open>Properties of the notebook dispatcher\<close>

subsection \<open>Version counting\<close>

lemma dispatch_localVersion:
  "localVersion (fst (dispatch confirmed a state))
     = localVersion state + (if bumps_version a then 1 else 0)"
  by (cases a) (simp_all add: Let_def split: KernelCommandName.splits)

text \<open>
  What the code does: over any sequence of dispatches the stored \<open>localVersion\<close> grows
  by the number of \<open>DeleteCell\<close> and \<open>UpdateConfig\<close> actions only.
\<close>

lemma dispatch_all_localVersion:
  "localVersion (fst (dispatch_all confirmed as state))
     = localVersion state + int (length (filter bumps_version as))"
proof (induction as arbitrary: state)
  case Nil
  show ?case by simp
next
  case (Cons a as)
  obtain s1 e1 where d: "dispatch confirmed a state = (s1, e1)"
    by (cases "dispatch confirmed a state")
  have "localVersion s1 = localVersion state + (if bumps_version a then 1 else 0)"
    using dispatch_localVersion[of confirmed a state] d by simp
  then show ?case using Cons.IH[of s1] d by (simp add: split_beta)
qed

text \<open>
  Claim C1 says that after N mutating dispatches from \<open>localVersion = 0\<close> the stored
  \<open>localVersion\<close> is N. The \<open>CreateCell\<close> and \<open>UpdateCell\<close> branches compute
  \<open>state.localVersion + 1\<close> into a local variable and return \<open>{...state, ...}\<close> without
  it, while \<open>DeleteCell\<close> and \<open>UpdateConfig\<close> store \<open>++state.localVersion\<close>. After the
  two mutating dispatches below the stored \<open>localVersion\<close> is still 0, where the claim
  requires 2.
\<close>

theorem localVersion_not_advanced:
  "localVersion (fst (dispatch_all False
      [CreateCell ''scala'' '''' (CellMetadata '''') 0, UpdateCell 0 [] (Some ''x'') None]
      scenario_state)) = 0"
  by (simp add: scenario_state_def Let_def)

text \<open>
  Claim C3 says that the message is buffered under the \<open>localVersion\<close> it carries. The
  \<open>CreateCell\<close> and \<open>UpdateCell\<close> branches build the message with
  \<open>state.localVersion + 1\<close> and call \<open>editBuffer.push(state.localVersion, update)\<close> with
  the old value: from \<open>localVersion = 0\<close> the message carrying version 1 is buffered at
  key 0. \<open>DeleteCell\<close> (and \<open>UpdateConfig\<close>) buffer at the version carried.
\<close>

theorem buffer_key_behind_message:
  "editBuffer (fst (dispatch False (CreateCell ''scala'' '''' (CellMetadata '''') 0) scenario_state))
     = [(0, messages_InsertCell 0 1 (new_NotebookCell 2 ''scala'' '''' (CellMetadata '''')) 0)]
   \<and> editBuffer (fst (dispatch False (UpdateCell 0 [] (Some ''x'') None) scenario_state))
     = [(0, messages_UpdateCell 0 1 0 [] None)]
   \<and> editBuffer (fst (dispatch False (DeleteCell 0) scenario_state))
     = [(1, messages_DeleteCell 0 1 0)]"
  by (simp add: scenario_state_def scenario_cell_def push_def maxId_def Let_def)

subsection \<open>Cell creation\<close>

lemma maxId_foldl:
  "foldl (\<lambda>acc cell. if acc > cell_id cell then acc else cell_id cell) a cs
     = Max (insert a (cell_id ` set cs))"
proof (induction cs arbitrary: a)
  case Nil
  show ?case by simp
next
  case (Cons c cs)
  have "Max (insert (if cell_id c < a then a else cell_id c) (cell_id ` set cs))
          = Max (insert a (insert (cell_id c) (cell_id ` set cs)))"
  proof (cases "cell_id ` set cs = {}")
    case True
    then show ?thesis by (auto simp: max_def)
  next
    case False
    then show ?thesis by (simp add: max_def)
  qed
  then show ?case using Cons by simp
qed

lemma maxId_Max:
  assumes "cs \<noteq> []" and "\<forall>c\<in>set cs. -1 \<le> cell_id c"
  shows "maxId cs = Max (cell_id ` set cs)"
proof -
  have "maxId cs = Max (insert (-1) (cell_id ` set cs))"
    unfolding maxId_def by (rule maxId_foldl)
  also have "\<dots> = max (-1) (Max (cell_id ` set cs))"
    using assms(1) by simp
  also have "\<dots> = Max (cell_id ` set cs)"
  proof -
    obtain c where "c \<in> set cs" using assms(1) by (cases cs) auto
    then have "-1 \<le> cell_id c" and "cell_id c \<le> Max (cell_id ` set cs)"
      using assms(2) by auto
    then show ?thesis by simp
  qed
  finally show ?thesis .
qed

text \<open>
  Claim C2, as amended: dispatching \<open>CreateCell(lang, "", meta, prev = 0)\<close> on a state
  whose cells have the ids 0, 1 and whose \<open>localVersion\<close> is 0 sends exactly one
  message, an \<open>InsertCell\<close> carrying \<open>localVersion = 1\<close>, \<open>prev = 0\<close> and a new cell with
  id 2; the local \<open>cells\<close> sequence is left as it was (the dispatcher does not insert
  the cell locally). In general the new id is the largest existing id plus one when no
  id is below \<open>-1\<close>, and 0 when there are no cells.
\<close>

theorem CreateCell_scenario:
  assumes "map cell_id (cells state) = [0, 1]" and "localVersion state = 0"
  shows "snd (dispatch confirmed (CreateCell lang '''' meta 0) state)
           = [Send (messages_InsertCell (globalVersion state) 1 (new_NotebookCell 2 lang '''' meta) 0)]
         \<and> cells (fst (dispatch confirmed (CreateCell lang '''' meta 0) state)) = cells state
         \<and> (cs \<noteq> [] \<and> (\<forall>c\<in>set cs. -1 \<le> cell_id c) \<longrightarrow> maxId cs + 1 = Max (cell_id ` set cs) + 1)
         \<and> maxId [] + 1 = 0"
proof -
  obtain c0 c1 where cs: "cells state = [c0, c1]" "cell_id c0 = 0" "cell_id c1 = 1"
    using assms(1) by (auto simp: map_eq_Cons_conv)
  then have "maxId (cells state) = 1" by (simp add: maxId_def)
  then have "snd (dispatch confirmed (CreateCell lang '''' meta 0) state)
           = [Send (messages_InsertCell (globalVersion state) 1 (new_NotebookCell 2 lang '''' meta) 0)]
         \<and> cells (fst (dispatch confirmed (CreateCell lang '''' meta 0) state)) = cells state"
    using assms(2) by (simp add: Let_def)
  moreover have "cs \<noteq> [] \<and> (\<forall>c\<in>set cs. -1 \<le> cell_id c) \<longrightarrow> maxId cs + 1 = Max (cell_id ` set cs) + 1"
    using maxId_Max[of cs] by simp
  moreover have "maxId [] + 1 = 0" by (simp add: maxId_def)
  ultimately show ?thesis by simp
qed

theorem CreateCell_scenario_witness:
  "map cell_id (cells scenario_state) = [0, 1] \<and> localVersion scenario_state = 0
   \<and> cells scenario_state \<noteq> []
   \<and> snd (dispatch False (CreateCell ''scala'' '''' (CellMetadata '''') 0) scenario_state)
       = [Send (messages_InsertCell 0 1 (new_NotebookCell 2 ''scala'' '''' (CellMetadata '''')) 0)]
   \<and> cells (fst (dispatch False (CreateCell ''scala'' '''' (CellMetadata '''') 0) scenario_state))
       = cells scenario_state
   \<and> maxId (cells scenario_state) + 1 = Max (cell_id ` set (cells scenario_state)) + 1"
proof -
  have h1: "map cell_id (cells scenario_state) = [0, 1]"
    by (simp add: scenario_state_def scenario_cell_def)
  have h2: "localVersion scenario_state = 0"
    by (simp add: scenario_state_def)
  have h3: "cells scenario_state \<noteq> [] \<and> (\<forall>c\<in>set (cells scenario_state). -1 \<le> cell_id c)"
    by (simp add: scenario_state_def scenario_cell_def)
  have g: "globalVersion scenario_state = 0"
    by (simp add: scenario_state_def)
  note t = CreateCell_scenario[OF h1 h2, where confirmed = False and lang = "''scala''"
      and meta = "CellMetadata ''''" and cs = "cells scenario_state", unfolded g]
  show ?thesis
    using h1 h2 h3 t by blast
qed

text \<open>
  The claim as written fails on the scenario: after the dispatch no local cell has id 2
  and the stored \<open>localVersion\<close> is not 1.
\<close>

theorem CreateCell_scenario_counterexample:
  "map cell_id (cells (fst (dispatch False (CreateCell ''scala'' '''' (CellMetadata '''') 0) scenario_state)))
     = [0, 1]
   \<and> localVersion (fst (dispatch False (CreateCell ''scala'' '''' (CellMetadata '''') 0) scenario_state)) \<noteq> 1"
  by (simp add: scenario_state_def scenario_cell_def Let_def)

subsection \<open>Completion and signature requests\<close>

lemma invoked_append: "invoked (xs @ ys) = invoked xs + invoked ys"
  by (induction xs rule: invoked.induct) simp_all

lemma dispatch_rejects:
  "requested_reject a + pending_rejects state
     = invoked (snd (dispatch confirmed a state)) + pending_rejects (fst (dispatch confirmed a state))"
  by (cases a)
     (simp_all add: pending_rejects_def Let_def split: KernelCommandName.splits option.splits)

lemma dispatch_all_rejects:
  "sum_list (map requested_reject as) + pending_rejects state
     = invoked (snd (dispatch_all confirmed as state))
       + pending_rejects (fst (dispatch_all confirmed as state))"
proof (induction as arbitrary: state)
  case Nil
  show ?case by simp
next
  case (Cons a as)
  obtain s1 e1 where d: "dispatch confirmed a state = (s1, e1)"
    by (cases "dispatch confirmed a state")
  have 1: "requested_reject a + pending_rejects state = invoked e1 + pending_rejects s1"
    using dispatch_rejects[of a state confirmed] d by simp
  have 2: "sum_list (map requested_reject as) + pending_rejects s1
             = invoked (snd (dispatch_all confirmed as s1))
               + pending_rejects (fst (dispatch_all confirmed as s1))"
    by (rule Cons.IH)
  have "sum_list (map requested_reject (a # as)) + pending_rejects state
          = sum_list (map requested_reject as) + (requested_reject a + pending_rejects state)"
    by (simp add: ac_simps)
  also have "\<dots> = invoked e1 + (sum_list (map requested_reject as) + pending_rejects s1)"
    using 1 by (simp add: ac_simps)
  also have "\<dots> = invoked e1 + (invoked (snd (dispatch_all confirmed as s1))
                      + pending_rejects (fst (dispatch_all confirmed as s1)))"
    using 2 by simp
  finally show ?case using d by (simp add: split_beta invoked_append ac_simps)
qed

text \<open>
  Claim C8: a state has one slot per kind of request, so at most one request of a kind
  is pending. Two \<open>RequestCompletions\<close> in a row (and likewise two \<open>RequestSignature\<close>)
  from any state: the second dispatch calls the first request's \<open>reject\<close> and the slot
  then holds the second request's callbacks; a request that was pending before the
  first dispatch is rejected by the first. Over any sequence of dispatches every
  \<open>reject\<close> handed in or pending at the start is either called or still held in a slot
  at the end: none is dropped.
\<close>

theorem superseded_request_rejected:
  "dispatch_all confirmed [RequestCompletions c1 o1 res1 rej1, RequestCompletions c2 o2 res2 rej2] state
     = (state\<lparr>activeCompletion := Some \<lparr>resolve = res2, reject = rej2\<rparr>\<rparr>,
        Send (messages_CompletionsAt c1 o1 [])
          # (case activeCompletion state of Some prior \<Rightarrow> [Invoke (reject prior)] | None \<Rightarrow> [])
          @ [Send (messages_CompletionsAt c2 o2 []), Invoke rej1])
   \<and> dispatch_all confirmed [RequestSignature c1 o1 res1 rej1, RequestSignature c2 o2 res2 rej2] state
     = (state\<lparr>activeSignature := Some \<lparr>resolve = res2, reject = rej2\<rparr>\<rparr>,
        Send (messages_ParametersAt c1 o1)
          # (case activeSignature state of Some prior \<Rightarrow> [Invoke (reject prior)] | None \<Rightarrow> [])
          @ [Send (messages_ParametersAt c2 o2), Invoke rej1])
   \<and> sum_list (map requested_reject as) + pending_rejects state
     = invoked (snd (dispatch_all confirmed as state))
       + pending_rejects (fst (dispatch_all confirmed as state))"
  by (simp add: dispatch_all_rejects)

subsection \<open>Selection\<close>

text \<open>
  Claim C9, as amended: \<open>dispatch\<close> is total on \<open>SetSelectedCell\<close>. When the neighbour
  above or below the anchor does not exist, the id resolved is the requested
  \<open>selected\<close>, or 0 when \<open>selected\<close> is \<open>-1\<close>; an \<open>undefined\<close> \<open>selected\<close> stays
  \<open>undefined\<close>, which deselects every cell. \<open>SetSelectedCell(id, "above")\<close> with \<open>id\<close> the
  id of the first cell (other than \<open>-1\<close>) selects that first cell.
\<close>

theorem selection_fallback:
  "(neighbour cs sel r = None \<longrightarrow>
      selected_id cs sel (Some r) = (if sel = Some (-1) then Some 0 else sel))
   \<and> (neighbour cs None r = None \<longrightarrow>
        dispatch confirmed (SetSelectedCell None (Some r)) (state\<lparr>cells := cs\<rparr>)
          = (state\<lparr>activeCell := None, cells := map (\<lambda>cell. cell\<lparr>selected := Some False\<rparr>) cs\<rparr>, []))
   \<and> (cell_id c \<noteq> -1 \<longrightarrow>
        selected_id (c # cs) (Some (cell_id c)) (Some above) = Some (cell_id c)
      \<and> dispatch confirmed (SetSelectedCell (Some (cell_id c)) (Some above)) (state\<lparr>cells := c # cs\<rparr>)
          = (state\<lparr>activeCell := Some c,
                    cells := map (\<lambda>cell. cell\<lparr>selected := Some (cell_id cell = cell_id c)\<rparr>) (c # cs)\<rparr>,
             []))"
proof -
  have "find (\<lambda>cell. False) cs = None" by (induction cs) simp_all
  then show ?thesis
    by (simp add: selected_id_def neighbour_def at_index_def Let_def)
qed

theorem selection_fallback_witness:
  "neighbour [scenario_cell 0, scenario_cell 1] (Some 1) below = None
   \<and> selected_id [scenario_cell 0, scenario_cell 1] (Some 1) (Some below) = Some 1
   \<and> cell_id (scenario_cell 0) \<noteq> -1
   \<and> selected_id (cells scenario_state) (Some 0) (Some above) = Some 0
   \<and> activeCell (fst (dispatch False (SetSelectedCell (Some 0) (Some above)) scenario_state))
       = Some (scenario_cell 0)"
proof -
  have h1: "neighbour [scenario_cell 0, scenario_cell 1] (Some 1) below = None"
    by (simp add: neighbour_def at_index_def scenario_cell_def Let_def)
  have h2: "cell_id (scenario_cell 0) \<noteq> -1"
    by (simp add: scenario_cell_def)
  have c: "cells scenario_state = [scenario_cell 0, scenario_cell 1]"
       "scenario_state\<lparr>cells := [scenario_cell 0, scenario_cell 1]\<rparr> = scenario_state"
       "cell_id (scenario_cell 0) = 0"
    by (simp_all add: scenario_state_def scenario_cell_def)
  show ?thesis
    using h1 h2
      selection_fallback[where cs = "[scenario_cell 1]" and sel = "Some 1" and r = below
        and c = "scenario_cell 0" and confirmed = False and state = scenario_state]
      selection_fallback[where cs = "[scenario_cell 0, scenario_cell 1]" and sel = "Some 1" and r = below
        and c = "scenario_cell 0" and confirmed = False and state = scenario_state]
    by (simp add: c)
qed

text \<open>
  The claim as written fails for an \<open>undefined\<close> \<open>selected\<close>: with cells 0 and 1 and
  \<open>SetSelectedCell(undefined, "above")\<close> there is no neighbour, and the id resolved is
  \<open>undefined\<close>, not 0: no cell is active and none is selected.
\<close>

theorem selection_undefined_counterexample:
  "neighbour (cells scenario_state) None above = None
   \<and> selected_id (cells scenario_state) None (Some above) \<noteq> Some 0
   \<and> activeCell (fst (dispatch False (SetSelectedCell None (Some above)) scenario_state)) = None
   \<and> map selected (cells (fst (dispatch False (SetSelectedCell None (Some above)) scenario_state)))
       = [Some False, Some False]"
  by (simp add: scenario_state_def scenario_cell_def selected_id_def neighbour_def at_index_def Let_def)

subsection \<open>Actions that only send\<close>

text \<open>
  Claim C10: a dispatch of \<open>CreateComment\<close>, \<open>UpdateComment\<close>, \<open>DeleteComment\<close>,
  \<open>SetCurrentSelection\<close>, \<open>SetCellOutput\<close>, \<open>RequestNotebookVersion\<close>,
  \<open>RequestCancelTasks\<close> or \<open>RequestClearOutput\<close> leaves the whole notebook state as it
  was (so \<open>localVersion\<close> and the edit buffer too) and sends exactly one message.
\<close>

theorem send_only_frame:
  assumes "send_only a"
  shows "fst (dispatch confirmed a state) = state
         \<and> (\<exists>m. snd (dispatch confirmed a state) = [Send m])"
  using assms by (cases a) simp_all

theorem send_only_frame_witness:
  "send_only (DeleteComment 0 ''c1'')
   \<and> fst (dispatch False (DeleteComment 0 ''c1'') scenario_state) = scenario_state
   \<and> (\<exists>m. snd (dispatch False (DeleteComment 0 ''c1'') scenario_state) = [Send m])"
proof -
  have h: "send_only (DeleteComment 0 ''c1'')" by simp
  show ?thesis
    using h send_only_frame[OF h, of False scenario_state] by simp
qed

section \<open>Properties of the backup store\<close>

subsection \<open>Association lists and extrema\<close>

lemma length_alist_update:
  "length (AList.update k v al) = (if k \<in> fst ` set al then length al else Suc (length al))"
  by (induction al) auto

lemma fold_min_least: "\<forall>y\<in>set xs. x \<le> y \<Longrightarrow> fold min xs (x::int) = x"
  by (induction xs) (auto simp: min_def)

subsection \<open>Retention\<close>

lemma addBackup_new_day:
  assumes "length (backups this) \<le> BACKUPS_PER_NOTEBOOK"
    and "today \<notin> fst ` set (backups this)"
  shows "length (backups (addBackup today b this)) = Suc (length (backups this))"
proof -
  have "map_of (backups this) today = None"
    using assms(2) by (simp add: map_of_eq_None_iff)
  then show ?thesis
    using assms by (simp add: addBackup_def length_alist_update)
qed

text \<open>
  Claim C5 says that after every \<open>addBackup\<close> there are at most
  \<open>BACKUPS_PER_NOTEBOOK = 100\<close> day buckets. \<open>addBackup\<close> removes the oldest day only
  when the count already exceeds the limit (\<open>> BACKUPS_PER_NOTEBOOK\<close>) and adds today's
  bucket afterwards: a container with 100 day buckets, none of them today's, has 101
  after the call.
\<close>

theorem bucket_count_exceeds_limit:
  "length (backups full_container) = 100
   \<and> length (backups (addBackup 101 (sample_backup 101) full_container)) = 101
   \<and> BACKUPS_PER_NOTEBOOK = 100"
proof -
  have l: "length (backups full_container) = 100"
    by (simp add: full_container_def)
  have k: "(101::int) \<notin> fst ` set (backups full_container)"
    by (auto simp: full_container_def)
  have "length (backups (addBackup 101 (sample_backup 101) full_container))
          = Suc (length (backups full_container))"
    by (rule addBackup_new_day) (simp_all add: l k BACKUPS_PER_NOTEBOOK_def)
  then show ?thesis
    using l by (simp add: BACKUPS_PER_NOTEBOOK_def)
qed

text \<open>
  Claim C6, as amended: provided the first step of \<open>addBackup\<close> does not delete today's
  bucket (the container has at most \<open>BACKUPS_PER_NOTEBOOK\<close> day buckets, or today is not
  its numerically smallest day), today's bucket after the call is: the new backup
  alone when there was no bucket; the old bucket with the new backup appended when it
  had fewer than \<open>BACKUPS_PER_DAY\<close> entries; the old bucket without its index 0 and with
  the new backup appended otherwise, so a bucket of exactly 10 stays at 10.
\<close>

theorem addBackup_today_bucket:
  assumes "length (backups this) \<le> BACKUPS_PER_NOTEBOOK
           \<or> Math_min (map fst (backups this)) \<noteq> Some today"
  shows "map_of (backups (addBackup today b this)) today =
           Some (case map_of (backups this) today of
                   None \<Rightarrow> [b]
                 | Some todayBackups \<Rightarrow>
                     if length todayBackups < BACKUPS_PER_DAY then todayBackups @ [b]
                     else tl todayBackups @ [b])
         \<and> (\<forall>todayBackups. map_of (backups this) today = Some todayBackups
                \<and> length todayBackups = BACKUPS_PER_DAY
              \<longrightarrow> length (the (map_of (backups (addBackup today b this)) today)) = BACKUPS_PER_DAY)"
proof -
  define kept where
    "kept = (if length (backups this) > BACKUPS_PER_NOTEBOOK
             then (case Math_min (map fst (backups this)) of
                     Some oldestDay \<Rightarrow> AList.delete oldestDay (backups this)
                   | None \<Rightarrow> backups this)
             else backups this)"
  have same: "map_of kept today = map_of (backups this) today"
    using assms unfolding kept_def by (auto split: option.splits)
  have "backups (addBackup today b this) =
           (case map_of kept today of
              None \<Rightarrow> AList.update today [b] kept
            | Some todayBackups \<Rightarrow>
                if length todayBackups < BACKUPS_PER_DAY
                then AList.update today (todayBackups @ [b]) kept
                else AList.update today (tl todayBackups @ [b]) kept)"
    unfolding addBackup_def kept_def by (simp add: Let_def)
  then have eq: "map_of (backups (addBackup today b this)) today =
           Some (case map_of (backups this) today of
                   None \<Rightarrow> [b]
                 | Some todayBackups \<Rightarrow>
                     if length todayBackups < BACKUPS_PER_DAY then todayBackups @ [b]
                     else tl todayBackups @ [b])"
    using same by (simp add: update_conv' split: option.splits)
  show ?thesis
    unfolding eq by (auto simp: BACKUPS_PER_DAY_def)
qed

theorem addBackup_today_bucket_witness:
  "length (backups \<lparr>bs_path = ''nb'', backups = [(7, map sample_backup [1..10])]\<rparr>) \<le> BACKUPS_PER_NOTEBOOK
   \<and> map_of (backups \<lparr>bs_path = ''nb'', backups = [(7, map sample_backup [1..10])]\<rparr>) 7
       = Some (map sample_backup [1..10])
   \<and> length (map sample_backup [1..10]) = BACKUPS_PER_DAY
   \<and> map_of (backups (addBackup 7 (sample_backup 11)
                \<lparr>bs_path = ''nb'', backups = [(7, map sample_backup [1..10])]\<rparr>)) 7
       = Some (map sample_backup [2..11])"
proof -
  have h: "length (backups \<lparr>bs_path = ''nb'', backups = [(7, map sample_backup [1..10])]\<rparr>) \<le> BACKUPS_PER_NOTEBOOK
           \<or> Math_min (map fst (backups \<lparr>bs_path = ''nb'', backups = [(7, map sample_backup [1..10])]\<rparr>)) \<noteq> Some 7"
    by (simp add: BACKUPS_PER_NOTEBOOK_def)
  have u: "[1..10] = [1::int,2,3,4,5,6,7,8,9,10]" "[2..11] = [2::int,3,4,5,6,7,8,9,10,11]"
    by (simp_all add: upto_rec1)
  show ?thesis
    using addBackup_today_bucket[OF h, of "sample_backup 11"]
    by (simp add: BACKUPS_PER_NOTEBOOK_def BACKUPS_PER_DAY_def u)
qed

text \<open>
  The claim as written fails when today's bucket is the oldest of more than
  \<open>BACKUPS_PER_NOTEBOOK\<close> buckets: the first step deletes it, ten backups and all, and
  the new backup becomes the sole entry of a new bucket.
\<close>

theorem oldest_today_counterexample:
  "map_of (backups crowded_container) 1 = Some (map sample_backup [1..10])
   \<and> length (map sample_backup [1..10]) = BACKUPS_PER_DAY
   \<and> map_of (backups (addBackup 1 (sample_backup 11) crowded_container)) 1 = Some [sample_backup 11]"
proof -
  have len: "length (backups crowded_container) = 101"
    by (simp add: crowded_container_def)
  have "fold min [2..101] (1::int) = 1"
    by (rule fold_min_least) simp
  then have m: "Math_min (map fst (backups crowded_container)) = Some 1"
    by (simp add: crowded_container_def comp_def)
  have d: "AList.delete 1 (backups crowded_container) = map (\<lambda>d. (d, [sample_backup d])) [2..101]"
    by (simp add: crowded_container_def AList.delete_eq filter_map comp_def)
  have n: "map_of (map (\<lambda>d. (d, [sample_backup d])) [2..101]) (1::int) = None"
    by (simp add: map_of_eq_None_iff image_iff)
  have "map_of (backups (addBackup 1 (sample_backup 11) crowded_container)) 1 = Some [sample_backup 11]"
    by (simp add: addBackup_def len m d n BACKUPS_PER_NOTEBOOK_def update_conv')
  then show ?thesis
    by (simp add: crowded_container_def BACKUPS_PER_DAY_def)
qed

subsection \<open>The bound on day buckets that holds\<close>

lemma fold_min_mem: "fold min xs (x::int) \<in> insert x (set xs)"
  by (induction xs arbitrary: x) (auto simp: min_def)

lemma Math_min_mem: "Math_min xs = Some m \<Longrightarrow> m \<in> set xs"
  using fold_min_mem by (cases xs) auto

lemma length_alist_delete: "k \<in> fst ` set al \<Longrightarrow> length (AList.delete k al) < length al"
  unfolding AList.delete_eq by (auto intro: length_filter_less)

lemma addBackup_bucket_bound:
  assumes "length (backups this) \<le> Suc BACKUPS_PER_NOTEBOOK"
  shows "length (backups (addBackup today b this)) \<le> Suc BACKUPS_PER_NOTEBOOK"
proof -
  define kept where
    "kept = (if length (backups this) > BACKUPS_PER_NOTEBOOK
             then (case Math_min (map fst (backups this)) of
                     Some oldestDay \<Rightarrow> AList.delete oldestDay (backups this)
                   | None \<Rightarrow> backups this)
             else backups this)"
  have k: "length kept \<le> BACKUPS_PER_NOTEBOOK"
  proof (cases "length (backups this) > BACKUPS_PER_NOTEBOOK")
    case False
    then show ?thesis by (simp add: kept_def)
  next
    case True
    then have "backups this \<noteq> []" by auto
    then obtain m where m: "Math_min (map fst (backups this)) = Some m"
      by (cases "backups this") auto
    then have "m \<in> fst ` set (backups this)" using Math_min_mem[OF m] by simp
    then have "length (AList.delete m (backups this)) < length (backups this)"
      by (rule length_alist_delete)
    then show ?thesis using True m assms by (simp add: kept_def)
  qed
  have "backups (addBackup today b this) =
           (case map_of kept today of
              None \<Rightarrow> AList.update today [b] kept
            | Some todayBackups \<Rightarrow>
                if length todayBackups < BACKUPS_PER_DAY
                then AList.update today (todayBackups @ [b]) kept
                else AList.update today (tl todayBackups @ [b]) kept)"
    unfolding addBackup_def kept_def by (simp add: Let_def)
  then show ?thesis using k
    by (auto simp: length_alist_update split: option.splits)
qed

subsection \<open>The store invariant\<close>

lemma Backup_fromI_id [simp]: "Backup_fromI = (\<lambda>b. b)"
  by (rule ext) (simp add: Backup_fromI_def)

lemma Backups_fromI_id [simp]: "Backups_fromI v = v"
  by (simp add: Backups_fromI_def)

lemma toI_id [simp]: "toI v = v"
  by (simp add: toI_def)

lemma set_alist_update: "set (AList.update k v al) \<subseteq> insert (k, v) (set al)"
  by (induction al) auto

lemma set_alist_delete: "set (AList.delete k al) \<subseteq> set al"
  by (auto simp: AList.delete_eq)

lemma filled_update: "filled al \<Longrightarrow> v \<noteq> [] \<Longrightarrow> filled (AList.update k v al)"
  using set_alist_update[of k v al] unfolding filled_def by force

lemma filled_delete: "filled al \<Longrightarrow> filled (AList.delete k al)"
  using set_alist_delete[of k al] unfolding filled_def by force

lemma addBackup_ok:
  assumes "filled (backups this)"
  shows "backups (addBackup today b this) \<noteq> [] \<and> filled (backups (addBackup today b this))"
proof -
  define kept where
    "kept = (if length (backups this) > BACKUPS_PER_NOTEBOOK
             then (case Math_min (map fst (backups this)) of
                     Some oldestDay \<Rightarrow> AList.delete oldestDay (backups this)
                   | None \<Rightarrow> backups this)
             else backups this)"
  have k: "filled kept"
    using assms unfolding kept_def by (auto simp: filled_delete split: option.splits)
  have "backups (addBackup today b this) =
           (case map_of kept today of
              None \<Rightarrow> AList.update today [b] kept
            | Some todayBackups \<Rightarrow>
                if length todayBackups < BACKUPS_PER_DAY
                then AList.update today (todayBackups @ [b]) kept
                else AList.update today (tl todayBackups @ [b]) kept)"
    unfolding addBackup_def kept_def by (simp add: Let_def)
  then show ?thesis using k by (auto simp: filled_update split: option.splits)
qed

lemma clone_list_Nil [simp]: "clone_list a l = [] \<longleftrightarrow> l = []" "[] = clone_list a l \<longleftrightarrow> l = []"
  by (cases l; simp)+

lemma clone_buckets_keys [simp]: "map fst (clone_buckets a bks) = map fst bks"
  by (induction a bks rule: clone_buckets.induct) simp_all

lemma clone_buckets_Nil [simp]: "clone_buckets a bks = [] \<longleftrightarrow> bks = []"
  by (cases bks) auto

lemma clone_buckets_filled [simp]: "filled (clone_buckets a bks) = filled bks"
  by (induction a bks rule: clone_buckets.induct) (auto simp: filled_def)

lemma idb_get_idb [simp]: "idb (snd (idb_get p w)) = idb w"
  by (simp add: idb_get_def split: option.splits)

lemma idb_get_None: "map_of (idb w) p = None \<Longrightarrow> idb_get p w = (None, w)"
  by (simp add: idb_get_def)

lemma idb_get_Some:
  "map_of (idb w) p = Some v \<Longrightarrow>
   idb_get p w = (Some (v\<lparr>backups := clone_buckets (next_addr w) (backups v)\<rparr>),
                  w\<lparr>next_addr := next_addr w + 3 * backup_count v\<rparr>)"
  by (simp add: idb_get_def)

lemma store_ok_entry:
  "store_ok w \<Longrightarrow> map_of (idb w) p = Some v \<Longrightarrow> backups v \<noteq> [] \<and> filled (backups v)"
  unfolding store_ok_def by (auto dest!: map_of_SomeD)

lemma store_ok_set:
  assumes "store_ok w" and "idb w' = idb w" and "backups v \<noteq> []" and "filled (backups v)"
  shows "store_ok (idb_set p v w')"
  using assms set_alist_update[of p v "idb w"]
  unfolding store_ok_def idb_set_def by auto

lemma store_ok_cong: "idb w' = idb w \<Longrightarrow> store_ok w' = store_ok w"
  by (simp add: store_ok_def)


lemma fold_max_mem: "fold max xs (x::int) \<in> insert x (set xs)"
  by (induction xs arbitrary: x) (auto simp: max_def)

lemma Math_max_mem: "Math_max xs = Some m \<Longrightarrow> m \<in> set xs"
  using fold_max_mem by (cases xs) auto

lemma latestBucket_mem:
  "latestBucket today v = Some (d, l) \<Longrightarrow> map_of (backups v) d = Some l"
  by (auto simp: latestBucket_def split: option.splits)

lemma latestBucket_ok:
  assumes "backups v \<noteq> []"
  shows "\<exists>d l. latestBucket today v = Some (d, l)"
proof (cases "map_of (backups v) today")
  case (Some l)
  then show ?thesis by (simp add: latestBucket_def)
next
  case None
  obtain m where m: "Math_max (map fst (backups v)) = Some m"
    using assms by (cases "backups v") auto
  then have "m \<in> fst ` set (backups v)" using Math_max_mem[OF m] by simp
  then obtain l where "map_of (backups v) m = Some l"
    by (cases "map_of (backups v) m") (auto simp: map_of_eq_None_iff)
  then show ?thesis using None m by (simp add: latestBucket_def)
qed

lemma at_index_last: "l \<noteq> [] \<Longrightarrow> at_index l (int (length l) - 1) = Some (last l)"
  by (cases l rule: rev_cases) (simp_all add: at_index_def nth_append)

lemma latestBackup_ok:
  assumes "backups v \<noteq> []" and "filled (backups v)"
  shows "\<exists>d l. latestBucket today v = Some (d, l) \<and> l \<noteq> [] \<and> latestBackup today v = Some (last l)"
proof -
  obtain d l where b: "latestBucket today v = Some (d, l)"
    using latestBucket_ok[OF assms(1)] by blast
  then have "(d, l) \<in> set (backups v)"
    by (auto dest!: latestBucket_mem map_of_SomeD)
  then have "l \<noteq> []" using assms(2) unfolding filled_def by force
  then show ?thesis using b by (simp add: latestBackup_def at_index_last)
qed

lemma latestBucket_update:
  assumes "latestBucket today v = Some (d, l)"
  shows "latestBucket today (v\<lparr>backups := AList.update d l' (backups v)\<rparr>) = Some (d, l')"
proof (cases "map_of (backups v) today")
  case (Some t)
  then have "d = today" using assms by (simp add: latestBucket_def)
  then show ?thesis by (simp add: latestBucket_def update_conv')
next
  case None
  then obtain m where m: "Math_max (map fst (backups v)) = Some m" "d = m" "map_of (backups v) m = Some l"
    using assms by (auto simp: latestBucket_def split: option.splits)
  then have ne: "m \<noteq> today" using None by auto
  have "m \<in> set (map fst (backups v))" using m(3) by (auto dest!: map_of_SomeD simp: image_iff) force
  then have k: "map fst (AList.update m l' (backups v)) = map fst (backups v)"
    by (simp add: update_keys)
  show ?thesis using None m ne k by (simp add: latestBucket_def update_conv')
qed

lemma bucket_view_keys: "bucket_view f bks = bucket_view f bks' \<Longrightarrow> map fst bks = map fst bks'"
proof -
  assume a: "bucket_view f bks = bucket_view f bks'"
  have "map fst (bucket_view f bks) = map fst bks" for bks :: "(int \<times> Backup list) list"
    by (induction bks) (auto simp: bucket_view_def)
  then show ?thesis using a by metis
qed

lemma bucket_view_lookup:
  "map_of (bucket_view f bks) d = map_option (map f) (map_of bks d)"
  by (induction bks) (auto simp: bucket_view_def)

lemma at_index_map: "at_index (map f l) i = map_option f (at_index l i)"
  by (auto simp: at_index_def nat_less_iff)

lemma bucket_view_latest:
  assumes "bucket_view f (backups v) = bucket_view f (backups v')"
  shows "map_option f (latestBackup today v) = map_option f (latestBackup today v')"
proof -
  have k: "map fst (backups v) = map fst (backups v')"
    using assms by (rule bucket_view_keys)
  have m: "map_option (map f) (map_of (backups v) d) = map_option (map f) (map_of (backups v') d)" for d
    using assms bucket_view_lookup[of f "backups v" d] bucket_view_lookup[of f "backups v'" d] by simp
  have b: "map_option (\<lambda>(d, l). (d, map f l)) (latestBucket today v)
         = map_option (\<lambda>(d, l). (d, map f l)) (latestBucket today v')"
  proof (cases "map_of (backups v) today")
    case (Some t)
    then obtain t' where "map_of (backups v') today = Some t'" "map f t = map f t'"
      using m[of today] by (cases "map_of (backups v') today") auto
    then show ?thesis using Some by (simp add: latestBucket_def)
  next
    case None
    then have n': "map_of (backups v') today = None"
      using m[of today] by (cases "map_of (backups v') today") auto
    show ?thesis
    proof (cases "Math_max (map fst (backups v))")
      case None
      then show ?thesis using \<open>map_of (backups v) today = None\<close> n' k by (simp add: latestBucket_def)
    next
      case (Some x)
      then show ?thesis using \<open>map_of (backups v) today = None\<close> n' k m[of x]
        by (cases "map_of (backups v) x"; cases "map_of (backups v') x") (auto simp: latestBucket_def)
    qed
  qed
  show ?thesis
  proof (cases "latestBucket today v")
    case None
    then have "latestBucket today v' = None" using b by simp
    then show ?thesis using None by (simp add: latestBackup_def)
  next
    case (Some x)
    obtain d l where x: "x = (d, l)" by (cases x)
    obtain d' l' where x': "latestBucket today v' = Some (d', l')" "map f l = map f l'"
      using b Some x by (cases "latestBucket today v'") auto
    have "length l = length l'" using x'(2) by (rule map_eq_imp_length_eq)
    then show ?thesis
      using Some x x' at_index_map[of f l "int (length l) - 1"] at_index_map[of f l' "int (length l') - 1"]
      by (simp add: latestBackup_def)
  qed
qed

lemma clone_list_view: "map (\<lambda>b. deref (b_updates b)) (clone_list a l) = map (\<lambda>b. deref (b_updates b)) l"
  by (induction a l rule: clone_list.induct) (simp_all add: clone_Backup_def)

lemma clone_buckets_view:
  "bucket_view (\<lambda>b. deref (b_updates b)) (clone_buckets a bks) = bucket_view (\<lambda>b. deref (b_updates b)) bks"
  by (induction a bks rule: clone_buckets.induct) (simp_all add: bucket_view_def clone_list_view)




lemma latestBackup_new [simp]: "latestBackup today (new_Backups p) = None"
  by (simp add: latestBackup_def latestBucket_def new_Backups_def)

lemma addNb_cases:
  assumes "idb_get p (w\<lparr>next_addr := next_addr w + 2\<rparr>) = (r, w1)"
    and "backup = new_Backup p (Ref (next_addr w) (map clearCell cs)) conf now (next_addr w + 1)"
    and "bs = (case r of Some i \<Rightarrow> i | None \<Rightarrow> new_Backups p)"
  shows "addNb today now p cs conf w =
           (if (case latestBackup today bs of Some latest \<Rightarrow> equals latest backup | None \<Rightarrow> False)
            then (Inr bs, w1)
            else (Inr (addBackup today backup bs), idb_set p (addBackup today backup bs) w1))"
proof -
  have "bs = (case r of Some i \<Rightarrow> Backups_fromI i | None \<Rightarrow> new_Backups p)"
    using assms(3) by (simp split: option.splits)
  then show ?thesis
    by (simp only: addNb_def Let_def assms(1,2) prod.case toI_id)
qed

lemma addNb_store_ok:
  assumes "store_ok w"
  shows "store_ok (snd (addNb today now p cs conf w))
         \<and> map_of (idb (snd (addNb today now p cs conf w))) p \<noteq> None
         \<and> \<not> isl (fst (addNb today now p cs conf w))"
proof -
  define w0 where "w0 = w\<lparr>next_addr := next_addr w + 2\<rparr>"
  have i0: "idb w0 = idb w" by (simp add: w0_def)
  obtain r w1 where g: "idb_get p w0 = (r, w1)" by (cases "idb_get p w0")
  have i1: "idb w1 = idb w" using idb_get_idb[of p w0] g i0 by simp
  have ok1: "store_ok w1" using assms i1 by (simp add: store_ok_def)
  define backup where
    "backup = new_Backup p (Ref (next_addr w) (map clearCell cs)) conf now (next_addr w + 1)"
  define bs where "bs = (case r of Some i \<Rightarrow> i | None \<Rightarrow> new_Backups p)"
  note A = addNb_cases[OF g[unfolded w0_def] backup_def bs_def, of today]
  have alt: "addNb today now p cs conf w = (Inr bs, w1) \<and> latestBackup today bs \<noteq> None
            \<or> addNb today now p cs conf w
                = (Inr (addBackup today backup bs), idb_set p (addBackup today backup bs) w1)"
  proof (cases "latestBackup today bs")
    case None
    then show ?thesis using A by simp
  next
    case (Some l)
    then show ?thesis using A by (cases "equals l backup") simp_all
  qed
  have bs: "bs = (case r of Some i \<Rightarrow> i | None \<Rightarrow> new_Backups p)" by (rule bs_def)
  have f: "filled (backups bs)"
  proof (cases "map_of (idb w) p")
    case None
    then have "r = None" using g i0 by (simp add: idb_get_None)
    then show ?thesis using bs by (simp add: new_Backups_def filled_def)
  next
    case (Some v)
    then have "r = Some (v\<lparr>backups := clone_buckets (next_addr w0) (backups v)\<rparr>)"
      using g i0 by (simp add: idb_get_Some)
    moreover have "filled (backups v)" using store_ok_entry[OF assms Some] by simp
    ultimately show ?thesis using bs by simp
  qed
  from alt show ?thesis
  proof
    assume a: "addNb today now p cs conf w = (Inr bs, w1) \<and> latestBackup today bs \<noteq> None"
    then have "r \<noteq> None" using bs by (cases r) auto
    then have "map_of (idb w) p \<noteq> None"
      using g i0 by (cases "map_of (idb w) p") (auto simp: idb_get_None)
    then show ?thesis using a ok1 i1 by simp
  next
    assume a: "addNb today now p cs conf w
                = (Inr (addBackup today backup bs), idb_set p (addBackup today backup bs) w1)"
    have "store_ok (idb_set p (addBackup today backup bs) w1)"
      using store_ok_set[OF ok1 refl] addBackup_ok[OF f] by blast
    then show ?thesis using a by (simp add: idb_set_def update_conv')
  qed
qed

lemma updateNb_missing:
  "map_of (idb w) p = None \<Longrightarrow> updateNb today now p upd w = (Inl (NoCurrentBackup p), w)"
  by (simp add: updateNb_def idb_get_None)

lemma updateNb_present:
  assumes "store_ok w" and "map_of (idb w) p = Some v"
  shows "\<exists>c w2 l1 l2.
           updateNb today now p upd w = (Inr c, w2)
         \<and> store_ok w2
         \<and> map_of (idb w2) p = Some c
         \<and> latestBackup today v = Some l1
         \<and> latestBackup today c = Some l2
         \<and> deref (b_updates l2) = deref (b_updates l1) @ [(now, upd)]"
proof -
  define c0 where "c0 = v\<lparr>backups := clone_buckets (next_addr w) (backups v)\<rparr>"
  define w1 where "w1 = w\<lparr>next_addr := next_addr w + 3 * backup_count v\<rparr>"
  have g: "idb_get p w = (Some c0, w1)"
    using assms(2) by (simp add: idb_get_Some c0_def w1_def)
  have i1: "idb w1 = idb w" by (simp add: w1_def)
  have ok1: "store_ok w1" using assms(1) i1 by (simp add: store_ok_def)
  have okv: "backups v \<noteq> []" "filled (backups v)"
    using store_ok_entry[OF assms] by simp_all
  then have okc: "backups c0 \<noteq> []" "filled (backups c0)" by (simp_all add: c0_def)
  obtain d l where dl: "latestBucket today c0 = Some (d, l)" "l \<noteq> []"
      "latestBackup today c0 = Some (last l)"
    using latestBackup_ok[OF okc] by blast
  obtain l1 where l1: "latestBackup today v = Some l1"
    using latestBackup_ok[OF okv] by blast
  have "bucket_view (\<lambda>b. deref (b_updates b)) (backups c0)
          = bucket_view (\<lambda>b. deref (b_updates b)) (backups v)"
    by (simp add: c0_def clone_buckets_view)
  from bucket_view_latest[OF this, of today]
  have same: "deref (b_updates (last l)) = deref (b_updates l1)"
    using dl(3) l1 by simp
  define l2 where "l2 = Backup_addUpdate now upd (last l)"
  define c where "c = c0\<lparr>backups := AList.update d (l[length l - 1 := l2]) (backups c0)\<rparr>"
  have a: "Backups_addUpdate today now upd c0 = Inr c"
    using dl by (simp add: Backups_addUpdate_def c_def l2_def)
  have ne: "l[length l - 1 := l2] \<noteq> []" using dl(2) by simp
  have lb: "latestBucket today c = Some (d, l[length l - 1 := l2])"
    unfolding c_def using dl(1) by (rule latestBucket_update)
  have "last (l[length l - 1 := l2]) = l2"
    using dl(2) by (simp add: last_list_update)
  then have lc: "latestBackup today c = Some l2"
    using lb ne at_index_last[OF ne] by (simp add: latestBackup_def)
  have okc': "backups c \<noteq> []" "filled (backups c)"
    using okc(2) ne by (simp_all add: c_def filled_update)
  have u: "updateNb today now p upd w = (Inr c, idb_set p c w1)"
    using g a by (simp add: updateNb_def)
  have "store_ok (idb_set p c w1)"
    using store_ok_set[OF ok1 refl okc'] .
  moreover have "map_of (idb (idb_set p c w1)) p = Some c"
    by (simp add: idb_set_def update_conv')
  moreover have "deref (b_updates l2) = deref (b_updates l1) @ [(now, upd)]"
    using same by (simp add: l2_def Backup_addUpdate_def)
  ultimately show ?thesis using u l1 lc by blast
qed

lemma updateNb_store_ok:
  assumes "store_ok w"
  shows "store_ok (snd (updateNb today now p upd w))"
proof (cases "map_of (idb w) p")
  case None
  then show ?thesis using assms by (simp add: updateNb_missing)
next
  case (Some v)
  then show ?thesis using updateNb_present[OF assms Some, of today now upd] by auto
qed

lemma getBackups_idb [simp]: "idb (snd (getBackups p w)) = idb w"
  by (simp add: getBackups_def idb_get_def split: option.splits)

lemma getBackups_each_idb [simp]: "idb (snd (getBackups_each ks w)) = idb w"
proof (induction ks arbitrary: w)
  case Nil
  show ?case by simp
next
  case (Cons k ks)
  obtain r w1 where g: "getBackups k w = (r, w1)" by (cases "getBackups k w")
  then have i: "idb w1 = idb w" using getBackups_idb[of k w] by simp
  show ?case
  proof (cases r)
    case (Inl e)
    then show ?thesis using g i by simp
  next
    case (Inr b)
    obtain r2 w2 where g2: "getBackups_each ks w1 = (r2, w2)" by (cases "getBackups_each ks w1")
    then have "idb w2 = idb w1" using Cons.IH[of w1] by simp
    then show ?thesis using g g2 i Inr by (cases r2) simp_all
  qed
qed

lemma clearBackups_store_ok:
  "store_ok w \<Longrightarrow> store_ok (snd (clearBackups w))"
proof -
  assume ok: "store_ok w"
  obtain r w1 where a: "allBackups w = (r, w1)" by (cases "allBackups w")
  then have "idb w1 = idb w"
    using getBackups_each_idb[of "idb_keys w" w] by (simp add: allBackups_def)
  then have "store_ok w1" using ok by (simp add: store_ok_def)
  then show ?thesis using a
    by (cases r) (simp_all add: clearBackups_def idb_clear_def store_ok_def)
qed

lemma reachable_store_ok: "reachable w \<Longrightarrow> store_ok w"
proof (induction rule: reachable.induct)
  case (reachable_empty n)
  show ?case by (simp add: store_ok_def)
next
  case (reachable_addNb w today now p cs conf)
  then show ?case using addNb_store_ok by blast
next
  case (reachable_updateNb w today now p upd)
  then show ?case using updateNb_store_ok by blast
next
  case (reachable_getBackups w p)
  then show ?case by (simp add: store_ok_def)
next
  case (reachable_allBackups w)
  then show ?case by (simp add: allBackups_def store_ok_def)
next
  case (reachable_clearBackups w)
  then show ?case using clearBackups_store_ok by blast
qed

lemma getBackups_result:
  "fst (getBackups p w) = (case map_of (idb w) p of
       None \<Rightarrow> Inl (NoBackupFound p)
     | Some v \<Rightarrow> Inr (v\<lparr>backups := clone_buckets (next_addr w) (backups v)\<rparr>))"
  by (simp add: getBackups_def idb_get_def split: option.splits)

subsection \<open>The bound on a day's backups\<close>

lemma addBackup_day_bound:
  assumes "\<forall>(d, l) \<in> set (backups this). length l \<le> BACKUPS_PER_DAY"
  shows "\<forall>(d, l) \<in> set (backups (addBackup today b this)). length l \<le> BACKUPS_PER_DAY"
proof -
  define kept where
    "kept = (if length (backups this) > BACKUPS_PER_NOTEBOOK
             then (case Math_min (map fst (backups this)) of
                     Some oldestDay \<Rightarrow> AList.delete oldestDay (backups this)
                   | None \<Rightarrow> backups this)
             else backups this)"
  have "set kept \<subseteq> set (backups this)"
    unfolding kept_def by (auto simp: AList.delete_eq split: option.splits)
  then have k: "\<forall>(d, l) \<in> set kept. length l \<le> BACKUPS_PER_DAY"
    using assms by blast
  have r: "backups (addBackup today b this) =
           (case map_of kept today of
              None \<Rightarrow> AList.update today [b] kept
            | Some todayBackups \<Rightarrow>
                if length todayBackups < BACKUPS_PER_DAY
                then AList.update today (todayBackups @ [b]) kept
                else AList.update today (tl todayBackups @ [b]) kept)"
    unfolding addBackup_def kept_def by (simp add: Let_def)
  have u: "\<forall>(d, l) \<in> set (AList.update today x kept). length l \<le> BACKUPS_PER_DAY"
    if "length x \<le> BACKUPS_PER_DAY" for x
    using that k set_alist_update[of today x kept] by blast
  show ?thesis
  proof (cases "map_of kept today")
    case None
    then show ?thesis using r u[of "[b]"] by (simp add: BACKUPS_PER_DAY_def)
  next
    case (Some l)
    then have "(today, l) \<in> set kept" by (rule map_of_SomeD)
    then have le: "length l \<le> BACKUPS_PER_DAY" using k by blast
    show ?thesis
    proof (cases "length l < BACKUPS_PER_DAY")
      case True
      then have "length (l @ [b]) \<le> BACKUPS_PER_DAY" by simp
      from u[OF this] show ?thesis using r Some True by simp
    next
      case False
      then have "length (tl l @ [b]) \<le> BACKUPS_PER_DAY"
        using le by (simp add: BACKUPS_PER_DAY_def)
      from u[OF this] show ?thesis using r Some False by simp
    qed
  qed
qed

subsection \<open>Missing entries and updates\<close>

text \<open>
  Claim C7: in every reachable world \<open>getBackups(path)\<close> and \<open>updateNb(path, upd)\<close> are
  rejected exactly when the store has no entry for the path, with the error of their
  own \<open>throw\<close>; \<open>addNb\<close> is not rejected, and after it the same \<open>updateNb\<close> succeeds
  and the update list of the latest stored backup is the former one with the entry
  \<open>(now, upd)\<close> appended.
\<close>

theorem not_found_iff_untracked:
  assumes "reachable w"
  shows "(isl (fst (getBackups p w)) \<longleftrightarrow> map_of (idb w) p = None)
       \<and> (isl (fst (updateNb today now p upd w)) \<longleftrightarrow> map_of (idb w) p = None)
       \<and> (map_of (idb w) p = None \<longrightarrow>
            fst (getBackups p w) = Inl (NoBackupFound p)
          \<and> fst (updateNb today now p upd w) = Inl (NoCurrentBackup p))
       \<and> \<not> isl (fst (addNb today0 now0 p cs conf w))
       \<and> \<not> isl (fst (updateNb today now p upd (snd (addNb today0 now0 p cs conf w))))
       \<and> (\<exists>l1 l2.
            latest_stored today (snd (addNb today0 now0 p cs conf w)) p = Some l1
          \<and> latest_stored today
               (snd (updateNb today now p upd (snd (addNb today0 now0 p cs conf w)))) p = Some l2
          \<and> deref (b_updates l2) = deref (b_updates l1) @ [(now, upd)])"
proof -
  have ok: "store_ok w" using assms by (rule reachable_store_ok)
  have 1: "isl (fst (getBackups p w)) \<longleftrightarrow> map_of (idb w) p = None"
    by (simp add: getBackups_result split: option.splits)
  have 2: "isl (fst (updateNb today now p upd w)) \<longleftrightarrow> map_of (idb w) p = None"
  proof (cases "map_of (idb w) p")
    case None
    then show ?thesis by (simp add: updateNb_missing)
  next
    case (Some v)
    then show ?thesis using updateNb_present[OF ok Some, of today now upd] by auto
  qed
  have 3: "map_of (idb w) p = None \<longrightarrow>
            fst (getBackups p w) = Inl (NoBackupFound p)
          \<and> fst (updateNb today now p upd w) = Inl (NoCurrentBackup p)"
    by (simp add: getBackups_result updateNb_missing)
  define w1 where "w1 = snd (addNb today0 now0 p cs conf w)"
  have a: "store_ok w1" "map_of (idb w1) p \<noteq> None" "\<not> isl (fst (addNb today0 now0 p cs conf w))"
    using addNb_store_ok[OF ok, of today0 now0 p cs conf] by (simp_all add: w1_def)
  then obtain v where v: "map_of (idb w1) p = Some v" by auto
  obtain c w2 l1 l2 where u: "updateNb today now p upd w1 = (Inr c, w2)"
      "map_of (idb w2) p = Some c" "latestBackup today v = Some l1" "latestBackup today c = Some l2"
      "deref (b_updates l2) = deref (b_updates l1) @ [(now, upd)]"
    using updateNb_present[OF a(1) v, of today now upd] by blast
  have 5: "\<not> isl (fst (updateNb today now p upd w1))" using u(1) by simp
  have 6: "\<exists>l1 l2. latest_stored today w1 p = Some l1
          \<and> latest_stored today (snd (updateNb today now p upd w1)) p = Some l2
          \<and> deref (b_updates l2) = deref (b_updates l1) @ [(now, upd)]"
    using u v by (simp add: latest_stored_def)
  show ?thesis using 1 2 3 a(3) 5 6 unfolding w1_def by blast
qed

theorem not_found_iff_untracked_witness:
  "reachable empty_world
   \<and> map_of (idb empty_world) ''nb'' = None
   \<and> fst (getBackups ''nb'' empty_world) = Inl (NoBackupFound ''nb'')
   \<and> fst (updateNb 1000 1007 ''nb'' (messages_DeleteCell 0 1 0) empty_world) = Inl (NoCurrentBackup ''nb'')
   \<and> \<not> isl (fst (updateNb 1000 1007 ''nb'' (messages_DeleteCell 0 1 0)
                  (snd (addNb 1000 1005 ''nb'' [] None empty_world))))
   \<and> map_option (\<lambda>b. deref (b_updates b))
        (latest_stored 1000 (snd (addNb 1000 1005 ''nb'' [] None empty_world)) ''nb'') = Some []
   \<and> map_option (\<lambda>b. deref (b_updates b))
        (latest_stored 1000
           (snd (updateNb 1000 1007 ''nb'' (messages_DeleteCell 0 1 0)
                  (snd (addNb 1000 1005 ''nb'' [] None empty_world)))) ''nb'')
       = Some [(1007, messages_DeleteCell 0 1 0)]"
proof -
  have r: "reachable empty_world"
    unfolding empty_world_def by (rule reachable_empty)
  note t = not_found_iff_untracked[OF r, where p = "''nb''" and today = 1000 and now = 1007
      and upd = "messages_DeleteCell 0 1 0" and ?today0.0 = 1000 and ?now0.0 = 1005 and cs = "[]" and conf = None]
  have n: "map_of (idb empty_world) ''nb'' = None"
    by (simp add: empty_world_def)
  have e: "map_option (\<lambda>b. deref (b_updates b))
        (latest_stored 1000 (snd (addNb 1000 1005 ''nb'' [] None empty_world)) ''nb'') = Some []"
    by (simp add: empty_world_def addNb_def idb_get_def idb_set_def Let_def new_Backups_def new_Backup_def
        latestBackup_def latestBucket_def addBackup_def at_index_def latest_stored_def
        BACKUPS_PER_DAY_def BACKUPS_PER_NOTEBOOK_def)
  show ?thesis
    using r n e t by auto
qed

subsection \<open>De-duplication\<close>

lemma clone_list_addr:
  "b \<in> set (clone_list a l) \<Longrightarrow> a \<le> addr (b_cells b)"
  by (induction a l rule: clone_list.induct) (auto simp: clone_Backup_def)

lemma clone_buckets_addr:
  "(d, l) \<in> set (clone_buckets a bks) \<Longrightarrow> b \<in> set l \<Longrightarrow> a \<le> addr (b_cells b)"
proof (induction a bks rule: clone_buckets.induct)
  case (1 a)
  then show ?case by simp
next
  case (2 a day bucket rest)
  then show ?case using clone_list_addr[of b a bucket] by fastforce
qed

lemma latestBackup_mem:
  assumes "latestBackup today v = Some b"
  shows "\<exists>d l. (d, l) \<in> set (backups v) \<and> b \<in> set l"
proof -
  obtain d l where dl: "latestBucket today v = Some (d, l)"
      and at: "at_index l (int (length l) - 1) = Some b"
    using assms by (auto simp: latestBackup_def split: option.splits)
  have "(d, l) \<in> set (backups v)"
    using dl by (auto dest!: latestBucket_mem map_of_SomeD)
  moreover have "b \<in> set l"
  proof -
    have ne: "l \<noteq> []" using at by (auto simp: at_index_def)
    then have "b = last l" using at at_index_last[of l] by simp
    then show ?thesis using ne last_in_set[of l] by simp
  qed
  ultimately show ?thesis by blast
qed

lemma addBackup_latest:
  "latestBackup today (addBackup today b this) = Some b"
proof -
  define kept where
    "kept = (if length (backups this) > BACKUPS_PER_NOTEBOOK
             then (case Math_min (map fst (backups this)) of
                     Some oldestDay \<Rightarrow> AList.delete oldestDay (backups this)
                   | None \<Rightarrow> backups this)
             else backups this)"
  have "backups (addBackup today b this) =
           (case map_of kept today of
              None \<Rightarrow> AList.update today [b] kept
            | Some todayBackups \<Rightarrow>
                if length todayBackups < BACKUPS_PER_DAY
                then AList.update today (todayBackups @ [b]) kept
                else AList.update today (tl todayBackups @ [b]) kept)"
    unfolding addBackup_def kept_def by (simp add: Let_def)
  then have "map_of (backups (addBackup today b this)) today
      = Some ((case map_of kept today of
                 None \<Rightarrow> []
               | Some todayBackups \<Rightarrow>
                   if length todayBackups < BACKUPS_PER_DAY then todayBackups else tl todayBackups) @ [b])"
    by (cases "map_of kept today") (simp_all add: update_conv')
  then show ?thesis
    by (simp add: latestBackup_def latestBucket_def at_index_def)
qed

text \<open>
  What the code does: whatever the store holds, the backup made by \<open>addNb\<close> is appended
  and is the latest one afterwards. The latest stored backup comes out of the store with
  new addresses, so \<open>equals\<close> never holds between it and the backup just made.
\<close>

lemma addNb_always_appends:
  "latest_stored today (snd (addNb today now p cs conf w)) p
     = Some (new_Backup p (Ref (next_addr w) (map clearCell cs)) conf now (next_addr w + 1))"
proof -
  define w0 where "w0 = w\<lparr>next_addr := next_addr w + 2\<rparr>"
  obtain r w1 where g: "idb_get p w0 = (r, w1)" by (cases "idb_get p w0")
  define backup where
    "backup = new_Backup p (Ref (next_addr w) (map clearCell cs)) conf now (next_addr w + 1)"
  define bs where "bs = (case r of Some i \<Rightarrow> i | None \<Rightarrow> new_Backups p)"
  note A = addNb_cases[OF g[unfolded w0_def] backup_def bs_def, of today]
  have ne: "\<not> equals l backup" if l: "latestBackup today bs = Some l" for l
  proof -
    obtain v where r: "r = Some v" using l bs_def by (cases r) auto
    then have m: "map_of (idb w0) p \<noteq> None"
      using g by (cases "map_of (idb w0) p") (auto simp: idb_get_None)
    then obtain e where e: "map_of (idb w0) p = Some e" by auto
    have "bs = e\<lparr>backups := clone_buckets (next_addr w0) (backups e)\<rparr>"
      using g r bs_def by (simp add: idb_get_Some[OF e])
    then obtain d bl where "(d, bl) \<in> set (clone_buckets (next_addr w0) (backups e))" "l \<in> set bl"
      using latestBackup_mem[OF l] by auto
    then have "next_addr w0 \<le> addr (b_cells l)" by (rule clone_buckets_addr)
    then have "addr (b_cells l) \<noteq> addr (b_cells backup)"
      by (simp add: w0_def backup_def new_Backup_def)
    then show ?thesis by (simp add: equals_def strict_eq_def)
  qed
  have "addNb today now p cs conf w
          = (Inr (addBackup today backup bs), idb_set p (addBackup today backup bs) w1)"
    using A ne by (cases "latestBackup today bs") simp_all
  then show ?thesis
    by (simp add: latest_stored_def idb_set_def update_conv' addBackup_latest backup_def)
qed

text \<open>
  Claim C4 says that \<open>addNb\<close> with cells and config equal in content to the latest
  stored backup adds nothing. \<open>addNb\<close> does test \<open>latestBackup()?.equals(backup)\<close>, but
  \<open>equals\<close> compares the arrays by identity and \<open>clearedCells\<close> is always a new array:
  two calls with the same (empty) cells and no config on the same day leave two
  backups for the path, as \<open>allBackups\<close> reports.
\<close>

theorem identical_addNb_appends:
  "map_sum id (map (\<lambda>(p, i). (p, backup_count i)))
     (fst (allBackups (snd (addNb 1000 1005 ''nb'' [] None empty_world))))
     = Inr [(''nb'', 1)]
   \<and> map_sum id (map (\<lambda>(p, i). (p, backup_count i)))
     (fst (allBackups (snd (addNb 1000 1006 ''nb'' [] None
                              (snd (addNb 1000 1005 ''nb'' [] None empty_world))))))
     = Inr [(''nb'', 2)]"
  by (simp add: empty_world_def addNb_def idb_get_def idb_set_def Let_def new_Backups_def new_Backup_def
      latestBackup_def latestBucket_def addBackup_def at_index_def equals_def strict_eq_def
      allBackups_def getBackups_def idb_keys_def backup_count_def clone_Backup_def
      BACKUPS_PER_DAY_def BACKUPS_PER_NOTEBOOK_def)

end
